theory Spec2Isabelle
  imports Complex_Main "HOL-Library.Word"
begin

section \<open>Typed arrays\<close>

text \<open>
  The pipeline works on JavaScript typed arrays: \<open>Uint8Array\<close> for the segmentation
  labels and \<open>Uint8ClampedArray\<close> for the RGBA data of an \<open>ImageData\<close>. Both are
  lists of bytes here. A read outside the array yields \<open>undefined\<close> (\<open>None\<close> below),
  which is neither \<open>=== 0\<close> nor \<open>=== 1\<close>; a write outside the array is ignored, which
  is what \<open>xs[i := v]\<close> does in HOL. (The variable \<open>mask\<close> of the source is \<open>msk\<close> here.)
\<close>

type_synonym u8 = "8 word"

definition elemAt :: "u8 list \<Rightarrow> nat \<Rightarrow> u8 option" where
  "elemAt a i = (if i < length a then Some (a ! i) else None)"

text \<open>JavaScript truthiness of an array element: \<open>undefined\<close> and \<open>0\<close> are falsy.\<close>

definition truthy :: "u8 option \<Rightarrow> bool" where
  "truthy v = (case v of None \<Rightarrow> False | Some b \<Rightarrow> b \<noteq> 0)"

section \<open>refineMask: neighbour-expansion dilation\<close>

text \<open>
  \<^verbatim>\<open>
  function refineMask(mask, width, height, iterations = 2) {
    const newMask = new Uint8Array(mask);
    for (let iter = 0; iter < iterations; iter++)
      for (let y = 1; y < height - 1; y++)
        for (let x = 1; x < width - 1; x++) {
          const i = y * width + x;
          if (mask[i] === 0 && (mask[i - 1] === 1 || mask[i + 1] === 1 ||
                                mask[i - width] === 1 || mask[i + width] === 1))
            newMask[i] = 1;
        }
    return newMask;
  }
  \<close>
  The three counted loops are folds over their index ranges. Inside the loops
  \<open>x \<ge> 1\<close> and \<open>y \<ge> 1\<close>, so \<open>i - 1\<close> and \<open>i - width\<close> are never negative and the
  subtraction on \<open>nat\<close> is the one of the source; \<open>height - 1\<close> and \<open>width - 1\<close> are
  \<open>-1\<close> in the source when the dimension is 0 and \<open>0\<close> here, and the loop body runs
  in neither case.
\<close>

definition expands :: "u8 list \<Rightarrow> nat \<Rightarrow> nat \<Rightarrow> bool" where
  "expands msk width i \<longleftrightarrow>
     elemAt msk i = Some 0 \<and>
     (elemAt msk (i - 1) = Some 1 \<or> elemAt msk (i + 1) = Some 1 \<or>
      elemAt msk (i - width) = Some 1 \<or> elemAt msk (i + width) = Some 1)"

definition refineStep :: "u8 list \<Rightarrow> nat \<Rightarrow> nat \<Rightarrow> nat \<Rightarrow> u8 list \<Rightarrow> u8 list" where
  "refineStep msk width y x newMask =
     (let i = y * width + x in
      if expands msk width i then newMask[i := 1] else newMask)"

definition refineRow :: "u8 list \<Rightarrow> nat \<Rightarrow> nat \<Rightarrow> u8 list \<Rightarrow> u8 list" where
  "refineRow msk width y newMask = fold (refineStep msk width y) [1..<width - 1] newMask"

definition refinePass :: "u8 list \<Rightarrow> nat \<Rightarrow> nat \<Rightarrow> u8 list \<Rightarrow> u8 list" where
  "refinePass msk width height newMask = fold (refineRow msk width) [1..<height - 1] newMask"

definition refineMask :: "u8 list \<Rightarrow> nat \<Rightarrow> nat \<Rightarrow> nat \<Rightarrow> u8 list" where
  "refineMask msk width height iterations =
     fold (\<lambda>iter newMask. refinePass msk width height newMask) [0..<iterations] msk"

text \<open>The number of foreground pixels of a label array: the entries that are truthy.\<close>

definition foregroundCount :: "u8 list \<Rightarrow> nat" where
  "foregroundCount msk = length (filter (\<lambda>v. v \<noteq> 0) msk)"

text \<open>
  The positions one pass writes: the interior positions at which the test on the
  input mask succeeds.
\<close>

definition flipped :: "u8 list \<Rightarrow> nat \<Rightarrow> nat \<Rightarrow> nat \<Rightarrow> bool" where
  "flipped msk width height j \<longleftrightarrow>
     (\<exists>y \<in> {1..<height - 1}. \<exists>x \<in> {1..<width - 1}. j = y * width + x \<and> expands msk width j)"


text \<open>
  The reading of the specification's sentence on neighbour expansion, for comparison
  with \<open>refineMask\<close>: the in-image 4-neighbours of a position, and the positions
  within 4-connected distance \<open>n\<close> of a pixel labelled 1.
\<close>

definition neighbours4 :: "nat \<Rightarrow> nat \<Rightarrow> nat \<Rightarrow> nat list" where
  "neighbours4 width height j =
     (let x = j mod width; y = j div width in
      (if 0 < x then [j - 1] else []) @ (if x + 1 < width then [j + 1] else []) @
      (if 0 < y then [j - width] else []) @ (if y + 1 < height then [j + width] else []))"

fun specWithinDistance :: "u8 list \<Rightarrow> nat \<Rightarrow> nat \<Rightarrow> nat \<Rightarrow> nat \<Rightarrow> bool" where
  "specWithinDistance msk width height 0 j = (elemAt msk j = Some 1)"
| "specWithinDistance msk width height (Suc n) j =
     (specWithinDistance msk width height n j \<or>
      list_ex (specWithinDistance msk width height n) (neighbours4 width height j))"

text \<open>A 5\<times>3 label array with one foreground pixel, at x = 1, y = 1.\<close>

definition strip5x3 :: "u8 list" where
  "strip5x3 = [0,0,0,0,0, 0,1,0,0,0, 0,0,0,0,0]"

section \<open>Images, canvases and the browser\<close>

text \<open>
  A decoded image and a canvas are rasters: a width, a height and the RGBA bytes that
  \<open>getImageData(0, 0, width, height)\<close> returns, four per pixel, row by row. The
  image is represented by the data the canvas holds after \<open>ctx.drawImage(img, 0, 0)\<close>
  on a fresh canvas of the image's size.
\<close>

record raster =
  rwidth :: nat
  rheight :: nat
  rgba :: "u8 list"

text \<open>
  The exceptions of the pipeline. \<open>getImageData\<close> and \<open>createImageData\<close> throw an
  \<open>IndexSizeError\<close> when the width or the height is 0.
\<close>

datatype error =
  ModelUnavailable | ImageLoadFailed | NoCanvasContext | NoMaskContext | IndexSizeError

text \<open>
  What the pipeline obtains from outside the repository is a parameter:
  \<^item> \<open>loadedModel\<close>: the outcome of \<open>await loadModel()\<close>; \<open>None\<close> when it throws,
    otherwise the model's \<open>segmentPerson\<close>, from the image and the segmentation
    threshold to \<open>segmentation.data\<close> (\<open>None\<close> when inference throws);
  \<^item> \<open>loadImage\<close>: the decoded image of a URL, \<open>None\<close> when \<open>img.onerror\<close> fires;
  \<^item> \<open>context2d k\<close>: whether \<open>getContext('2d')\<close> returns a context for the
    \<open>k\<close>-th canvas the pipeline creates (0 the output canvas, 1 the mask canvas);
  \<^item> \<open>drawBlurred r a c\<close>: the data of canvas \<open>c\<close> after \<open>ctx.filter = blur(r px)\<close>,
    \<open>ctx.globalAlpha = a\<close> and \<open>ctx.drawImage(c, 0, 0)\<close> onto itself;
  \<^item> \<open>destinationIn c m\<close>: the data of canvas \<open>c\<close> after drawing canvas \<open>m\<close> onto it
    with \<open>globalCompositeOperation = 'destination-in'\<close>.
\<close>

record browser =
  loadedModel :: "(raster \<Rightarrow> rat \<Rightarrow> u8 list option) option"
  loadImage :: "string \<Rightarrow> raster option"
  context2d :: "nat \<Rightarrow> bool"
  drawBlurred :: "rat \<Rightarrow> rat \<Rightarrow> raster \<Rightarrow> u8 list"
  destinationIn :: "raster \<Rightarrow> raster \<Rightarrow> u8 list"

text \<open>
  An optional numeric setting. \<open>v || d\<close> is \<open>d\<close> when \<open>v\<close> is \<open>undefined\<close> or 0;
  \<open>v && v > 0\<close> holds when \<open>v\<close> is present and positive; \<open>v ?? d\<close> is \<open>d\<close> only
  when \<open>v\<close> is \<open>undefined\<close>.
\<close>

definition orDefault :: "rat option \<Rightarrow> rat \<Rightarrow> rat" where
  "orDefault v d = (case v of None \<Rightarrow> d | Some x \<Rightarrow> if x = 0 then d else x)"

definition positive :: "rat option \<Rightarrow> bool" where
  "positive v = (case v of None \<Rightarrow> False | Some x \<Rightarrow> x \<noteq> 0 \<and> 0 < x)"

definition nullish :: "rat option \<Rightarrow> rat \<Rightarrow> rat" where
  "nullish v d = (case v of None \<Rightarrow> d | Some x \<Rightarrow> x)"

text \<open>\<^verbatim>\<open>if (v && v > 0) { ... v ... }\<close>: a step that runs only on a positive setting.\<close>

definition whenPositive :: "rat option \<Rightarrow> (rat \<Rightarrow> 'a \<Rightarrow> 'a) \<Rightarrow> 'a \<Rightarrow> 'a" where
  "whenPositive v f c = (case v of None \<Rightarrow> c | Some x \<Rightarrow> if x \<noteq> 0 \<and> 0 < x then f x c else c)"

section \<open>Cutting out the background by writing alpha\<close>

text \<open>
  \<^verbatim>\<open>
  for (let i = 0; i < mask.length; i++) {
    const pixelIndex = i * 4;
    if (!mask[i]) pixels[pixelIndex + 3] = 0;
  }
  \<close>
\<close>

definition clearAlpha :: "u8 list \<Rightarrow> nat \<Rightarrow> u8 list \<Rightarrow> u8 list" where
  "clearAlpha msk i pixels =
     (let pixelIndex = i * 4 in
      if \<not> truthy (elemAt msk i) then pixels[pixelIndex + 3 := 0] else pixels)"

definition applyMask :: "u8 list \<Rightarrow> u8 list \<Rightarrow> u8 list" where
  "applyMask msk pixels = fold (clearAlpha msk) [0..<length msk] pixels"

subsection \<open>The basic variant\<close>

record basicSettings =
  foregroundThresholdB :: "rat option"
  backgroundThresholdB :: "rat option"
  alphaMattingB :: "bool option"

definition removeBackgroundBasic :: "browser \<Rightarrow> string \<Rightarrow> basicSettings \<Rightarrow> error + raster" where
  "removeBackgroundBasic br imageUrl settings =
     (case loadedModel br of
        None \<Rightarrow> Inl ModelUnavailable
      | Some segmentPerson \<Rightarrow>
     (case loadImage br imageUrl of
        None \<Rightarrow> Inl ImageLoadFailed
      | Some img \<Rightarrow>
     (case segmentPerson img (orDefault (foregroundThresholdB settings) 50 / 100) of
        None \<Rightarrow> Inl ModelUnavailable
      | Some segmentation \<Rightarrow>
        if \<not> context2d br 0 then Inl NoCanvasContext
        else if rwidth img = 0 \<or> rheight img = 0 then Inl IndexSizeError
        else Inr \<lparr>rwidth = rwidth img, rheight = rheight img,
                  rgba = applyMask segmentation (rgba img)\<rparr>)))"

subsection \<open>The variant with refineMask and a blur effect\<close>

record refineSettings =
  foregroundThresholdR :: "rat option"
  blurEffect :: "rat option"
  refineEdges :: "bool option"

text \<open>
  \<^verbatim>\<open>const mask = settings.refineEdges
      ? refineMask(segmentation.data, img.width, img.height) : segmentation.data;\<close>
  with the default of two iterations.
\<close>

definition chosenMask :: "refineSettings \<Rightarrow> u8 list \<Rightarrow> raster \<Rightarrow> u8 list" where
  "chosenMask settings segmentation img =
     (if refineEdges settings = Some True
      then refineMask segmentation (rwidth img) (rheight img) 2 else segmentation)"

definition blurEffectStep :: "browser \<Rightarrow> refineSettings \<Rightarrow> raster \<Rightarrow> raster" where
  "blurEffectStep br settings canvas =
     whenPositive (blurEffect settings)
       (\<lambda>b c. c\<lparr>rgba := drawBlurred br b (9 / 10) c\<rparr>) canvas"

definition removeBackgroundRefine :: "browser \<Rightarrow> string \<Rightarrow> refineSettings \<Rightarrow> error + raster" where
  "removeBackgroundRefine br imageUrl settings =
     (case loadedModel br of
        None \<Rightarrow> Inl ModelUnavailable
      | Some segmentPerson \<Rightarrow>
     (case loadImage br imageUrl of
        None \<Rightarrow> Inl ImageLoadFailed
      | Some img \<Rightarrow>
     (case segmentPerson img (orDefault (foregroundThresholdR settings) 10 / 100) of
        None \<Rightarrow> Inl ModelUnavailable
      | Some segmentation \<Rightarrow>
        let msk = chosenMask settings segmentation img in
        if \<not> context2d br 0 then Inl NoCanvasContext
        else if rwidth img = 0 \<or> rheight img = 0 then Inl IndexSizeError
        else Inr (blurEffectStep br settings
               \<lparr>rwidth = rwidth img, rheight = rheight img,
                rgba = applyMask msk (rgba img)\<rparr>))))"


section \<open>The variant with a mask canvas (lib/backgroundRemover.ts)\<close>

subsection \<open>Mask builder\<close>

text \<open>
  \<^verbatim>\<open>
  const maskImageData = maskCtx.createImageData(img.width, img.height);
  for (let i = 0; i < segmentation.data.length; i++) {
    const val = segmentation.data[i] ? 255 : 0;
    const pos = i * 4;
    maskImageData.data[pos] = val;     maskImageData.data[pos + 1] = val;
    maskImageData.data[pos + 2] = val; maskImageData.data[pos + 3] = 255;
  }
  \<close>
  \<open>createImageData\<close> returns transparent black: \<open>4 * width * height\<close> zero bytes.
\<close>

definition writeMaskPixel :: "u8 list \<Rightarrow> nat \<Rightarrow> u8 list \<Rightarrow> u8 list" where
  "writeMaskPixel segmentation i d =
     (let val = (if truthy (elemAt segmentation i) then 255 else 0); pos = i * 4 in
      d[pos := val, pos + 1 := val, pos + 2 := val, pos + 3 := 255])"

definition buildMask :: "u8 list \<Rightarrow> nat \<Rightarrow> nat \<Rightarrow> u8 list" where
  "buildMask segmentation width height =
     fold (writeMaskPixel segmentation) [0..<length segmentation]
       (replicate (4 * width * height) 0)"

subsection \<open>Re-thresholding the blurred mask\<close>

text \<open>
  The values \<open>i\<close> takes in \<^verbatim>\<open>for (let i = 0; i < data.length; i += 4)\<close>.
\<close>

definition pixelStarts :: "u8 list \<Rightarrow> nat list" where
  "pixelStarts d = map (\<lambda>k. 4 * k) [0..<(length d + 3) div 4]"

text \<open>
  \<^verbatim>\<open>
  const avg = (data[i] + data[i+1] + data[i+2]) / 3;
  data[i] = data[i+1] = data[i+2] = avg > 128 ? 255 : 0;
  \<close>
  The sum of three bytes and its third are exact or correctly rounded in a double, and
  128 is a double, so \<open>avg > 128\<close> is the comparison of the rational numbers. With
  a channel read outside the array the average is \<open>NaN\<close> (\<open>None\<close>), and
  \<open>NaN > 128\<close> is false.
\<close>

definition average3 :: "u8 option \<Rightarrow> u8 option \<Rightarrow> u8 option \<Rightarrow> rat option" where
  "average3 r g b =
     (case r of None \<Rightarrow> None | Some r' \<Rightarrow>
     (case g of None \<Rightarrow> None | Some g' \<Rightarrow>
     (case b of None \<Rightarrow> None | Some b' \<Rightarrow>
        Some (of_nat (unat r' + unat g' + unat b') / 3))))"

definition thresholdAvg :: "nat \<Rightarrow> u8 list \<Rightarrow> u8 list" where
  "thresholdAvg i d =
     (let avg = average3 (elemAt d i) (elemAt d (i + 1)) (elemAt d (i + 2));
          v = (case avg of None \<Rightarrow> 0 | Some a \<Rightarrow> if 128 < a then 255 else 0)
      in d[i + 2 := v, i + 1 := v, i := v])"

definition rethresholdAvg :: "u8 list \<Rightarrow> u8 list" where
  "rethresholdAvg d = fold thresholdAvg (pixelStarts d) d"

text \<open>
  The other variant with a mask canvas tests the channels one by one:
  \<^verbatim>\<open>
  if (p[i] > 128 || p[i+1] > 128 || p[i+2] > 128) { p[i] = 255; p[i+1] = 255; p[i+2] = 255; }
  else { p[i] = 0; p[i+1] = 0; p[i+2] = 0; }
  \<close>
\<close>

definition gt128 :: "u8 option \<Rightarrow> bool" where
  "gt128 v = (case v of None \<Rightarrow> False | Some b \<Rightarrow> 128 < b)"

definition thresholdAny :: "nat \<Rightarrow> u8 list \<Rightarrow> u8 list" where
  "thresholdAny i d =
     (if gt128 (elemAt d i) \<or> gt128 (elemAt d (i + 1)) \<or> gt128 (elemAt d (i + 2))
      then d[i := 255, i + 1 := 255, i + 2 := 255]
      else d[i := 0, i + 1 := 0, i + 2 := 0])"

definition rethresholdAny :: "u8 list \<Rightarrow> u8 list" where
  "rethresholdAny d = fold thresholdAny (pixelStarts d) d"

text \<open>
  The rule in the words of the specification, for pixel \<open>k\<close> of the data: any
  channel greater than 128 makes the pixel 255, otherwise it becomes 0.
\<close>

definition specRethreshold :: "u8 list \<Rightarrow> nat \<Rightarrow> u8" where
  "specRethreshold d k =
     (if 128 < d ! (4 * k) \<or> 128 < d ! (4 * k + 1) \<or> 128 < d ! (4 * k + 2) then 255 else 0)"

subsection \<open>The pipeline\<close>

record options =
  foregroundThresholdO :: "rat option"
  edgeDilation :: "rat option"
  edgeBlurAmount :: "rat option"

text \<open>
  \<^verbatim>\<open>
  if (options.edgeDilation && options.edgeDilation > 0) {
    maskCtx.filter = `blur(${options.edgeDilation}px)`;
    maskCtx.drawImage(maskCanvas, 0, 0);
    maskCtx.filter = 'none';
    const dilatedData = maskCtx.getImageData(0, 0, maskCanvas.width, maskCanvas.height);
    ... re-threshold ...
    maskCtx.putImageData(dilatedData, 0, 0);
  }
  \<close>
\<close>

definition dilateMask :: "browser \<Rightarrow> options \<Rightarrow> raster \<Rightarrow> raster" where
  "dilateMask br opts maskCanvas =
     whenPositive (edgeDilation opts)
       (\<lambda>r m. m\<lparr>rgba := rethresholdAvg (drawBlurred br r 1 m)\<rparr>) maskCanvas"

definition edgeBlur :: "browser \<Rightarrow> options \<Rightarrow> raster \<Rightarrow> raster" where
  "edgeBlur br opts canvas =
     whenPositive (edgeBlurAmount opts)
       (\<lambda>r c. c\<lparr>rgba := drawBlurred br r 1 c\<rparr>) canvas"

definition removeBackground :: "browser \<Rightarrow> string \<Rightarrow> options \<Rightarrow> error + raster" where
  "removeBackground br imageUrl opts =
     (case loadedModel br of
        None \<Rightarrow> Inl ModelUnavailable
      | Some segmentPerson \<Rightarrow>
     (case loadImage br imageUrl of
        None \<Rightarrow> Inl ImageLoadFailed
      | Some img \<Rightarrow>
        if \<not> context2d br 0 then Inl NoCanvasContext
        else
     (case segmentPerson img (orDefault (foregroundThresholdO opts) 50 / 100) of
        None \<Rightarrow> Inl ModelUnavailable
      | Some segmentation \<Rightarrow>
        if \<not> context2d br 1 then Inl NoMaskContext
        else if rwidth img = 0 \<or> rheight img = 0 then Inl IndexSizeError
        else
          let canvas = \<lparr>rwidth = rwidth img, rheight = rheight img, rgba = rgba img\<rparr>;
              maskCanvas = \<lparr>rwidth = rwidth img, rheight = rheight img,
                            rgba = buildMask segmentation (rwidth img) (rheight img)\<rparr>;
              maskCanvas = dilateMask br opts maskCanvas;
              canvas = canvas\<lparr>rgba := destinationIn br canvas maskCanvas\<rparr>
          in Inr (edgeBlur br opts canvas))))"


section \<open>The settings endpoint\<close>

subsection \<open>Request bodies and the validators of the schema\<close>

text \<open>
  A request body is a JSON value; an object is the list of its own properties, and a
  property that is absent reads as \<open>undefined\<close> (\<open>None\<close>). Numbers are the
  rationals, which include every finite double.
\<close>

datatype json =
  JNull | JBool bool | JNum rat | JStr string | JArr "json list" | JObj "(string \<times> json) list"

text \<open>A validation issue: the path of the property and the issue code.\<close>

datatype zodIssue = Issue string string

text \<open>
  The validators the schema is built from, as the validation library defines them:
  each reads the property's value and yields the issues it raises or the parsed value.
  \<open>default\<close> and \<open>optional\<close> accept only an absent property in place of a value.
\<close>

definition zEnum :: "string list \<Rightarrow> string \<Rightarrow> json option \<Rightarrow> zodIssue list + string" where
  "zEnum allowed key v =
     (case v of
        Some (JStr s) \<Rightarrow>
          if s \<in> set allowed then Inr s else Inl [Issue key ''invalid_enum_value'']
      | _ \<Rightarrow> Inl [Issue key ''invalid_type''])"

definition zBoolean :: "string \<Rightarrow> json option \<Rightarrow> zodIssue list + bool" where
  "zBoolean key v = (case v of Some (JBool b) \<Rightarrow> Inr b | _ \<Rightarrow> Inl [Issue key ''invalid_type''])"

definition zString :: "string \<Rightarrow> json option \<Rightarrow> zodIssue list + string" where
  "zString key v = (case v of Some (JStr s) \<Rightarrow> Inr s | _ \<Rightarrow> Inl [Issue key ''invalid_type''])"

definition zNumberMinMax :: "rat \<Rightarrow> rat \<Rightarrow> string \<Rightarrow> json option \<Rightarrow> zodIssue list + rat" where
  "zNumberMinMax lo hi key v =
     (case v of
        Some (JNum n) \<Rightarrow>
          (let issues = (if n < lo then [Issue key ''too_small''] else []) @
                        (if hi < n then [Issue key ''too_big''] else [])
           in if issues = [] then Inr n else Inl issues)
      | _ \<Rightarrow> Inl [Issue key ''invalid_type''])"

definition zDefault ::
  "'a \<Rightarrow> (string \<Rightarrow> json option \<Rightarrow> zodIssue list + 'a) \<Rightarrow> string \<Rightarrow> json option \<Rightarrow> zodIssue list + 'a"
where
  "zDefault d validator key v = (case v of None \<Rightarrow> Inr d | Some _ \<Rightarrow> validator key v)"

definition zOptional ::
  "(string \<Rightarrow> json option \<Rightarrow> zodIssue list + 'a) \<Rightarrow> string \<Rightarrow> json option \<Rightarrow>
   zodIssue list + 'a option"
where
  "zOptional validator key v =
     (case v of None \<Rightarrow> Inr None | Some _ \<Rightarrow> map_sum id Some (validator key v))"

definition issuesOf :: "zodIssue list + 'a \<Rightarrow> zodIssue list" where
  "issuesOf r = (case r of Inl e \<Rightarrow> e | Inr _ \<Rightarrow> [])"

subsection \<open>settingsSchema\<close>

definition backgroundRemovalModels :: "string list" where
  "backgroundRemovalModels = [''u2net'', ''u2netp'', ''u2net_human_seg'']"

definition backgroundTypes :: "string list" where
  "backgroundTypes = [''transparent'', ''color'', ''image'']"

text \<open>The value \<open>settingsSchema.parse\<close> returns; an optional property may be absent.\<close>

record settings =
  model :: string
  alphaMatting :: bool
  foregroundThreshold :: rat
  backgroundThreshold :: rat
  backgroundType :: string
  backgroundColor :: string
  backgroundImage :: "string option"
  allowResize :: bool
  allowMove :: bool

text \<open>
  \<^verbatim>\<open>
  export const settingsSchema = z.object({
    model: z.enum(backgroundRemovalModels),
    alphaMatting: z.boolean(),
    foregroundThreshold: z.number().min(0).max(100),
    backgroundThreshold: z.number().min(0).max(100),
    backgroundType: z.enum(backgroundTypes).default("transparent"),
    backgroundColor: z.string().default("#ffffff"),
    backgroundImage: z.string().optional(),
    allowResize: z.boolean().default(true),
    allowMove: z.boolean().default(true),
  });
  \<close>
  \<open>parse\<close> throws a \<open>ZodError\<close> with the issues of all properties (\<open>Inl\<close>), or
  returns the parsed object without the properties the schema does not name.
\<close>

definition settingsSchemaParse :: "json \<Rightarrow> zodIssue list + settings" where
  "settingsSchemaParse body =
     (case body of
        JObj props \<Rightarrow>
          (let get = map_of props;
               m = zEnum backgroundRemovalModels ''model'' (get ''model'');
               a = zBoolean ''alphaMatting'' (get ''alphaMatting'');
               f = zNumberMinMax 0 100 ''foregroundThreshold'' (get ''foregroundThreshold'');
               b = zNumberMinMax 0 100 ''backgroundThreshold'' (get ''backgroundThreshold'');
               t = zDefault ''transparent'' (zEnum backgroundTypes) ''backgroundType''
                     (get ''backgroundType'');
               c = zDefault ''#ffffff'' zString ''backgroundColor'' (get ''backgroundColor'');
               i = zOptional zString ''backgroundImage'' (get ''backgroundImage'');
               r = zDefault True zBoolean ''allowResize'' (get ''allowResize'');
               v = zDefault True zBoolean ''allowMove'' (get ''allowMove'')
           in case (m, a, f, b, t, c, i, r, v) of
                (Inr m', Inr a', Inr f', Inr b', Inr t', Inr c', Inr i', Inr r', Inr v') \<Rightarrow>
                  Inr \<lparr>model = m', alphaMatting = a', foregroundThreshold = f',
                       backgroundThreshold = b', backgroundType = t', backgroundColor = c',
                       backgroundImage = i', allowResize = r', allowMove = v'\<rparr>
              | _ \<Rightarrow>
                  Inl (issuesOf m @ issuesOf a @ issuesOf f @ issuesOf b @ issuesOf t @
                       issuesOf c @ issuesOf i @ issuesOf r @ issuesOf v))
      | _ \<Rightarrow> Inl [Issue [] ''invalid_type''])"

subsection \<open>MemStorage\<close>

text \<open>The stored record, \<open>ImageSettings\<close>; \<open>backgroundImage\<close> is a string or null.\<close>

record imageSettings =
  sId :: nat
  sModel :: string
  sAlphaMatting :: bool
  sForegroundThreshold :: rat
  sBackgroundThreshold :: rat
  sBackgroundType :: string
  sBackgroundColor :: string
  sBackgroundImage :: "string option"
  sAllowResize :: bool
  sAllowMove :: bool

record memStorage =
  users :: "(nat \<times> string \<times> string) list"
  stored :: imageSettings
  currentId :: nat

text \<open>The state the constructor of \<open>MemStorage\<close> builds.\<close>

definition newMemStorage :: memStorage where
  "newMemStorage =
     \<lparr>users = [],
      stored = \<lparr>sId = 1, sModel = ''u2net'', sAlphaMatting = False,
                sForegroundThreshold = 50, sBackgroundThreshold = 50,
                sBackgroundType = ''transparent'', sBackgroundColor = ''#ffffff'',
                sBackgroundImage = Some [], sAllowResize = True, sAllowMove = True\<rparr>,
      currentId = 1\<rparr>"

definition getDefaultSettings :: "memStorage \<Rightarrow> imageSettings" where
  "getDefaultSettings st = stored st"

text \<open>
  \<^verbatim>\<open>this.settings = { ...this.settings, ...newSettings }; return this.settings;\<close>
  Every property of the parsed object replaces the stored one; \<open>backgroundImage\<close>
  is replaced only when the parsed object has it.
\<close>

definition updateSettings :: "memStorage \<Rightarrow> settings \<Rightarrow> memStorage \<times> imageSettings" where
  "updateSettings st newSettings =
     (let merged = (stored st)
            \<lparr>sModel := model newSettings,
             sAlphaMatting := alphaMatting newSettings,
             sForegroundThreshold := foregroundThreshold newSettings,
             sBackgroundThreshold := backgroundThreshold newSettings,
             sBackgroundType := backgroundType newSettings,
             sBackgroundColor := backgroundColor newSettings,
             sBackgroundImage :=
               (case backgroundImage newSettings of
                  None \<Rightarrow> sBackgroundImage (stored st) | Some u \<Rightarrow> Some u),
             sAllowResize := allowResize newSettings,
             sAllowMove := allowMove newSettings\<rparr>
      in (st\<lparr>stored := merged\<rparr>, merged))"

subsection \<open>POST /api/settings\<close>

text \<open>
  \<^verbatim>\<open>
  app.post("/api/settings", async (req, res) => {
    try {
      const settings = settingsSchema.parse(req.body);
      const updatedSettings = await storage.updateSettings(settings);
      res.json(updatedSettings);
    } catch (error) {
      if (error instanceof ZodError) {
        const validationError = fromZodError(error);
        res.status(400).json({ message: validationError.message });
      } else {
        res.status(500).json({ message: "Failed to update settings" });
      }
    }
  });
  \<close>
  The handler takes the storage and the body and returns the response and the storage
  after the request. The message of a validation error is built from the issues.
  Nothing in the \<open>try\<close> block throws anything but a \<open>ZodError\<close>
  (\<open>MemStorage.updateSettings\<close> does not throw), so the 500 branch has no case here.
\<close>

datatype responseBody = SettingsJson imageSettings | ValidationMessage "zodIssue list"

record response =
  status :: nat
  body :: responseBody

definition postSettings :: "memStorage \<Rightarrow> json \<Rightarrow> response \<times> memStorage" where
  "postSettings st reqBody =
     (case settingsSchemaParse reqBody of
        Inl zodError \<Rightarrow> (\<lparr>status = 400, body = ValidationMessage zodError\<rparr>, st)
      | Inr parsed \<Rightarrow>
          (let (st', updatedSettings) = updateSettings st parsed
           in (\<lparr>status = 200, body = SettingsJson updatedSettings\<rparr>, st')))"

definition getSettings :: "memStorage \<Rightarrow> response \<times> memStorage" where
  "getSettings st = (\<lparr>status = 200, body = SettingsJson (getDefaultSettings st)\<rparr>, st)"

section \<open>loadModel\<close>

text \<open>
  \<^verbatim>\<open>
  let bodyPixModel: bodyPix.BodyPix | null = null;
  export async function loadModel() {
    if (!bodyPixModel) {
      bodyPixModel = await bodyPix.load({ ... });
    }
    return bodyPixModel;
  }
  \<close>
  A call runs up to the \<open>await\<close> or the \<open>return\<close> without interruption; the rest
  of a suspended call runs when the promise of its \<open>bodyPix.load\<close> settles. The
  state is the module variable, the number of \<open>bodyPix.load\<close> calls made so far, and
  the loads whose promise has not settled. A model instance is identified by the
  number of the load that produced it.
\<close>

record loader =
  bodyPixModel :: "nat option"
  started :: nat
  inFlight :: "nat list"

datatype loadEvent = Call | Resolve nat | Reject nat

datatype loadOutcome = Returned nat | Suspended nat | Threw | NoSuchLoad

definition initialLoader :: loader where
  "initialLoader = \<lparr>bodyPixModel = None, started = 0, inFlight = []\<rparr>"

fun loadModel :: "loader \<Rightarrow> loadEvent \<Rightarrow> loader \<times> loadOutcome" where
  "loadModel s Call =
     (case bodyPixModel s of
        None \<Rightarrow> (s\<lparr>started := started s + 1, inFlight := inFlight s @ [started s]\<rparr>,
                 Suspended (started s))
      | Some m \<Rightarrow> (s, Returned m))"
| "loadModel s (Resolve k) =
     (if k \<in> set (inFlight s)
      then (s\<lparr>bodyPixModel := Some k, inFlight := removeAll k (inFlight s)\<rparr>, Returned k)
      else (s, NoSuchLoad))"
| "loadModel s (Reject k) =
     (if k \<in> set (inFlight s)
      then (s\<lparr>inFlight := removeAll k (inFlight s)\<rparr>, Threw)
      else (s, NoSuchLoad))"

definition runLoader :: "loader \<Rightarrow> loadEvent list \<Rightarrow> loader" where
  "runLoader s events = fold (\<lambda>e s'. fst (loadModel s' e)) events s"

section \<open>Example inputs\<close>

text \<open>
  A 2\<times>1 image whose left pixel is labelled foreground, and a browser that decodes
  every URL to it. Its blur leaves the canvas as it is, and so does its
  destination-in, which is what that operation does for an opaque mask canvas.
\<close>

definition demoImage :: raster where
  "demoImage = \<lparr>rwidth = 2, rheight = 1, rgba = [10, 20, 30, 255, 40, 50, 60, 255]\<rparr>"

definition demoBrowser :: browser where
  "demoBrowser =
     \<lparr>loadedModel = Some (\<lambda>img threshold. Some [1, 0]),
      loadImage = (\<lambda>url. Some demoImage),
      context2d = (\<lambda>k. True),
      drawBlurred = (\<lambda>r a c. rgba c),
      destinationIn = (\<lambda>c m. rgba c)\<rparr>"

text \<open>A settings body whose foreground threshold is 150.\<close>

definition badThresholdBody :: json where
  "badThresholdBody =
     JObj [(''model'', JStr ''u2net''), (''alphaMatting'', JBool False),
           (''foregroundThreshold'', JNum 150), (''backgroundThreshold'', JNum 50)]"

section \<open>Properties of refineMask\<close>

text \<open>
  One pass writes 1 at exactly the flipped positions and leaves every other entry of
  the buffer as it is; the flipped positions depend on the input mask only.
\<close>

lemma refineStep_length: "length (refineStep msk w y x nm) = length nm"
  by (simp add: refineStep_def Let_def)

lemma fold_refineStep_length:
  "length (fold (refineStep msk w y) xs nm) = length nm"
  by (induction xs arbitrary: nm) (simp_all add: refineStep_length)

lemma fold_refineStep_nth:
  "j < length nm \<Longrightarrow>
   fold (refineStep msk w y) xs nm ! j =
     (if (\<exists>x \<in> set xs. j = y * w + x \<and> expands msk w j) then 1 else nm ! j)"
proof (induction xs arbitrary: nm)
  case Nil
  then show ?case by simp
next
  case (Cons x xs)
  have len: "j < length (refineStep msk w y x nm)"
    using Cons.prems by (simp add: refineStep_length)
  have step: "refineStep msk w y x nm ! j =
      (if j = y * w + x \<and> expands msk w j then 1 else nm ! j)"
    using Cons.prems by (auto simp: refineStep_def Let_def)
  show ?case
    using Cons.IH [OF len] step by auto
qed

lemma refineRow_length: "length (refineRow msk w y nm) = length nm"
  by (simp add: refineRow_def fold_refineStep_length)

lemma refineRow_nth:
  "j < length nm \<Longrightarrow>
   refineRow msk w y nm ! j =
     (if (\<exists>x \<in> {1..<w - 1}. j = y * w + x \<and> expands msk w j) then 1 else nm ! j)"
  by (simp add: refineRow_def fold_refineStep_nth)

lemma fold_refineRow_length:
  "length (fold (refineRow msk w) ys nm) = length nm"
  by (induction ys arbitrary: nm) (simp_all add: refineRow_length)

lemma fold_refineRow_nth:
  "j < length nm \<Longrightarrow>
   fold (refineRow msk w) ys nm ! j =
     (if (\<exists>y \<in> set ys. \<exists>x \<in> {1..<w - 1}. j = y * w + x \<and> expands msk w j)
      then 1 else nm ! j)"
proof (induction ys arbitrary: nm)
  case Nil
  then show ?case by simp
next
  case (Cons y ys)
  have len: "j < length (refineRow msk w y nm)"
    using Cons.prems by (simp add: refineRow_length)
  show ?case
    using Cons.IH [OF len] refineRow_nth [OF Cons.prems, of msk w y] by auto
qed

lemma refinePass_length: "length (refinePass msk w h nm) = length nm"
  by (simp add: refinePass_def fold_refineRow_length)

lemma refinePass_nth:
  "j < length nm \<Longrightarrow>
   refinePass msk w h nm ! j = (if flipped msk w h j then 1 else nm ! j)"
  by (simp add: refinePass_def fold_refineRow_nth flipped_def)

lemma refineMask_Suc:
  "refineMask msk w h (Suc n) = refinePass msk w h (refineMask msk w h n)"
  by (simp add: refineMask_def)

lemma refineMask_length: "length (refineMask msk w h n) = length msk"
  by (induction n) (simp_all add: refineMask_Suc refinePass_length, simp add: refineMask_def)

lemma refineMask_nth:
  "j < length msk \<Longrightarrow>
   refineMask msk w h n ! j = (if 0 < n \<and> flipped msk w h j then 1 else msk ! j)"
proof (induction n)
  case 0
  then show ?case by (simp add: refineMask_def)
next
  case (Suc n)
  then show ?case
    by (simp add: refineMask_Suc refinePass_nth refineMask_length)
qed


text \<open>Row-major indices: a position determines its row and column.\<close>

lemma index_unique:
  assumes "x < w" "x' < w" "y * w + x = y' * w + x'"
  shows "x = x' \<and> y = (y'::nat)"
proof -
  have "(y * w + x) mod w = x" "(y' * w + x') mod w = x'"
    using assms(1,2) by simp_all
  then have x: "x = x'" using assms(3) by metis
  have "(y * w + x) div w = y" "(y' * w + x') div w = y'"
    using assms(1,2) by simp_all
  then have "y = y'" using assms(3) by metis
  with x show ?thesis by simp
qed

lemma index_bound: "x < w \<Longrightarrow> y < h \<Longrightarrow> y * w + x < w * (h::nat)"
proof -
  assume a: "x < w" "y < h"
  then have "y * w + x < Suc y * w" by simp
  also have "\<dots> \<le> h * w" using a by (intro mult_le_mono1) simp
  finally show ?thesis by (simp add: mult.commute)
qed

lemma border_not_flipped:
  assumes "x < w" "x = 0 \<or> x = w - 1 \<or> y = 0 \<or> y = h - 1"
  shows "\<not> flipped msk w h (y * w + x)"
proof
  assume "flipped msk w h (y * w + x)"
  then obtain y' x' where yx: "1 \<le> y'" "y' < h - 1" "1 \<le> x'" "x' < w - 1"
      and eq: "y * w + x = y' * w + x'"
    by (auto simp: flipped_def)
  from yx have "x' < w" by simp
  from index_unique [OF assms(1) this eq] have "x = x'" "y = y'" by simp_all
  with yx assms(2) show False by auto
qed

lemma foreground_not_flipped:
  "j < length msk \<Longrightarrow> msk ! j \<noteq> 0 \<Longrightarrow> \<not> flipped msk w h j"
  by (auto simp: flipped_def expands_def elemAt_def)

lemma count_mono:
  assumes "length xs = length ys" "\<And>i. i < length xs \<Longrightarrow> P (xs ! i) \<Longrightarrow> P (ys ! i)"
  shows "length (filter P xs) \<le> length (filter P ys)"
proof -
  have "{i. i < length xs \<and> P (xs ! i)} \<subseteq> {i. i < length ys \<and> P (ys ! i)}"
    using assms by auto
  then have "card {i. i < length xs \<and> P (xs ! i)} \<le> card {i. i < length ys \<and> P (ys ! i)}"
    by (intro card_mono) simp_all
  then show ?thesis by (simp add: length_filter_conv_card)
qed

text \<open>
  C4. For every mask, width, height and iteration count, \<open>refineMask\<close> returns at
  least as many foreground pixels as its input has, and every foreground pixel of the
  input keeps its value: dilation never turns foreground into background.
\<close>

theorem refineMask_grows_foreground:
  "foregroundCount msk \<le> foregroundCount (refineMask msk width height n) \<and>
   (\<forall>i < length msk. msk ! i \<noteq> 0 \<longrightarrow>
      refineMask msk width height n ! i = msk ! i \<and> refineMask msk width height n ! i \<noteq> 0)"
proof -
  have keep: "refineMask msk width height n ! i = msk ! i"
    if "i < length msk" "msk ! i \<noteq> 0" for i
    using that foreground_not_flipped [of i msk width height]
    by (simp add: refineMask_nth)
  have "length (filter (\<lambda>v. v \<noteq> 0) msk) \<le> length (filter (\<lambda>v. v \<noteq> 0) (refineMask msk width height n))"
    by (rule count_mono) (simp_all add: refineMask_length keep)
  with keep show ?thesis by (simp add: foregroundCount_def)
qed

theorem refineMask_grows_foreground_witness:
  "foregroundCount strip5x3 = 1 \<and> foregroundCount (refineMask strip5x3 5 3 2) = 2 \<and>
   refineMask strip5x3 5 3 2 ! 6 = 1"
proof -
  have a: "foregroundCount strip5x3 = 1" by code_simp
  have b: "foregroundCount (refineMask strip5x3 5 3 2) = 2" by code_simp
  have c: "(6::nat) < length strip5x3 \<and> strip5x3 ! 6 \<noteq> 0" by code_simp
  have d: "strip5x3 ! 6 = 1" by code_simp
  from refineMask_grows_foreground [of strip5x3 5 3 2] c d
  have "refineMask strip5x3 5 3 2 ! 6 = 1" by metis
  with a b show ?thesis by simp
qed

text \<open>
  C5, as amended. With at least one iteration, every background pixel that is not on
  the image border and has a 4-neighbour labelled 1 in the input mask is 1 in the
  result. (Nothing is said about pixels further away than one step.)
\<close>

theorem refineMask_interior_neighbour:
  assumes "length msk = width * height" "1 \<le> n"
    and "1 \<le> x" "x < width - 1" "1 \<le> y" "y < height - 1"
    and "i = y * width + x"
    and "msk ! i = 0"
    and "msk ! (i - 1) = 1 \<or> msk ! (i + 1) = 1 \<or>
         msk ! (i - width) = 1 \<or> msk ! (i + width) = 1"
  shows "refineMask msk width height n ! i = 1"
proof -
  have xw: "x < width" and yh: "y < height" using assms by simp_all
  have i: "i < length msk" using index_bound [OF xw yh] assms(1,7) by simp
  have l: "i - 1 < length msk" using i by simp
  have "y * width + (x + 1) < width * height"
    using assms(4) yh by (intro index_bound) simp_all
  then have r: "i + 1 < length msk"
    using assms(1,7) by simp
  have u: "i - width < length msk" using i by simp
  have "(y + 1) * width + x < width * height"
    using assms(6) xw by (intro index_bound) simp_all
  then have d: "i + width < length msk"
    using assms(1,7) by (simp add: add.commute add.left_commute)
  have "expands msk width i"
    unfolding expands_def elemAt_def using i l r u d assms(8,9) by simp
  moreover have "y \<in> {1..<height - 1}" "x \<in> {1..<width - 1}"
    using assms(3-6) by simp_all
  ultimately have "flipped msk width height i"
    unfolding flipped_def using assms(7) by blast
  then show ?thesis using i assms(2) by (simp add: refineMask_nth)
qed

theorem refineMask_interior_neighbour_witness:
  "length strip5x3 = 5 * 3 \<and> strip5x3 ! 7 = 0 \<and> strip5x3 ! (7 - 1) = 1 \<and>
   refineMask strip5x3 5 3 2 ! 7 = 1"
proof -
  have len: "length strip5x3 = 5 * 3" and bg: "strip5x3 ! 7 = 0"
    and nb: "strip5x3 ! (7 - 1) = 1 \<or> strip5x3 ! (7 + 1) = 1 \<or>
             strip5x3 ! (7 - 5) = 1 \<or> strip5x3 ! (7 + 5) = 1"
    and left: "strip5x3 ! (7 - 1) = 1"
    by (simp_all add: strip5x3_def)
  have "refineMask strip5x3 5 3 2 ! 7 = 1"
    by (rule refineMask_interior_neighbour [where x = 2 and y = 1, OF len _ _ _ _ _ _ bg nb])
      simp_all
  with len bg left show ?thesis by simp
qed

text \<open>
  C5 as stated fails. In the 5\<times>3 strip, pixel 8 is within distance 2 of the
  foreground pixel 6 and is still background after two iterations; pixel 1, on the
  border, is adjacent to pixel 6 and is still background as well.
\<close>

theorem refineMask_distance_counterexample:
  "specWithinDistance strip5x3 5 3 2 8 \<and> strip5x3 ! 8 = 0 \<and>
   refineMask strip5x3 5 3 2 ! 8 = 0 \<and>
   specWithinDistance strip5x3 5 3 1 1 \<and> strip5x3 ! 1 = 0 \<and>
   refineMask strip5x3 5 3 2 ! 1 = 0"
  by code_simp

text \<open>
  C6. For every iteration count \<open>n \<ge> 1\<close>, \<open>refineMask\<close> returns what one iteration
  returns, and the pixels on the image border keep the value of the input mask.
\<close>

theorem refineMask_iterations_collapse:
  assumes "1 \<le> n"
  shows "refineMask msk width height n = refineMask msk width height 1 \<and>
    (\<forall>x y. x < width \<and> y < height \<and> (x = 0 \<or> x = width - 1 \<or> y = 0 \<or> y = height - 1) \<and>
        y * width + x < length msk \<longrightarrow>
        refineMask msk width height n ! (y * width + x) = msk ! (y * width + x))"
proof -
  have "refineMask msk width height n = refineMask msk width height 1"
  proof (rule nth_equalityI)
    show "length (refineMask msk width height n) = length (refineMask msk width height 1)"
      by (simp add: refineMask_length)
  next
    fix j assume "j < length (refineMask msk width height n)"
    then have "j < length msk" by (simp add: refineMask_length)
    then show "refineMask msk width height n ! j = refineMask msk width height 1 ! j"
      using assms by (simp add: refineMask_nth)
  qed
  moreover have "refineMask msk width height n ! (y * width + x) = msk ! (y * width + x)"
    if "x < width" "x = 0 \<or> x = width - 1 \<or> y = 0 \<or> y = height - 1"
       "y * width + x < length msk" for x y
    using that border_not_flipped [of x width y height msk]
    by (simp add: refineMask_nth)
  ultimately show ?thesis by blast
qed

theorem refineMask_iterations_collapse_witness:
  "(1::nat) \<le> 2 \<and> refineMask strip5x3 5 3 2 = refineMask strip5x3 5 3 1 \<and>
   (5::nat) < length strip5x3 \<and> refineMask strip5x3 5 3 2 ! 5 = strip5x3 ! 5"
proof -
  have n: "(1::nat) \<le> 2" by simp
  have len: "(5::nat) < length strip5x3" by (simp add: strip5x3_def)
  from refineMask_iterations_collapse [OF n, of strip5x3 5 3]
  have eq: "refineMask strip5x3 5 3 2 = refineMask strip5x3 5 3 1"
    and border: "\<And>x y. x < 5 \<and> y < 3 \<and> (x = 0 \<or> x = 5 - 1 \<or> y = 0 \<or> y = 3 - 1) \<and>
        y * 5 + x < length strip5x3 \<longrightarrow>
        refineMask strip5x3 5 3 2 ! (y * 5 + x) = strip5x3 ! (y * 5 + x)"
    by blast+
  from border [of 0 1] len have "refineMask strip5x3 5 3 2 ! 5 = strip5x3 ! 5" by simp
  with n eq len show ?thesis by simp
qed

section \<open>Properties of the cutout and of the mask builder\<close>

lemma whenPositive_skip: "\<not> positive v \<Longrightarrow> whenPositive v f c = c"
  by (auto simp: positive_def whenPositive_def split: option.splits)

lemma clearAlpha_length: "length (clearAlpha msk i p) = length p"
  by (simp add: clearAlpha_def Let_def)

lemma clearAlpha_nth:
  "j < length p \<Longrightarrow>
   clearAlpha msk i p ! j = (if j = i * 4 + 3 \<and> \<not> truthy (elemAt msk i) then 0 else p ! j)"
  by (auto simp: clearAlpha_def Let_def)

lemma fold_clearAlpha_length: "length (fold (clearAlpha msk) xs p) = length p"
  by (induction xs arbitrary: p) (simp_all add: clearAlpha_length)

lemma fold_clearAlpha_nth:
  "j < length p \<Longrightarrow>
   fold (clearAlpha msk) xs p ! j =
     (if (\<exists>i \<in> set xs. j = i * 4 + 3 \<and> \<not> truthy (elemAt msk i)) then 0 else p ! j)"
proof (induction xs arbitrary: p)
  case Nil
  then show ?case by simp
next
  case (Cons i xs)
  have len: "j < length (clearAlpha msk i p)"
    using Cons.prems by (simp add: clearAlpha_length)
  show ?case
    using Cons.IH [OF len] clearAlpha_nth [OF Cons.prems, of msk i] by auto
qed

lemma applyMask_length: "length (applyMask msk p) = length p"
  by (simp add: applyMask_def fold_clearAlpha_length)

lemma applyMask_alpha:
  assumes "i < length msk" "msk ! i = 0" "i * 4 + 3 < length p"
  shows "applyMask msk p ! (i * 4 + 3) = 0"
proof -
  have "\<not> truthy (elemAt msk i)" using assms(1,2) by (simp add: truthy_def elemAt_def)
  then have "\<exists>k \<in> set [0..<length msk]. i * 4 + 3 = k * 4 + 3 \<and> \<not> truthy (elemAt msk k)"
    using assms(1) by auto
  then show ?thesis
    using assms(3) by (simp add: applyMask_def fold_clearAlpha_nth del: set_upt)
qed

text \<open>
  C1. Take an image of matching dimensions (four bytes per pixel, one label per pixel)
  for which the model, the image load and the canvas are available. The basic variant,
  and the variant with \<open>refineMask\<close> when its blur effect is not positive, return a
  result in which every pixel whose mask value is 0 has alpha 0. The mask is the
  segmentation, or the refined segmentation when \<open>refineEdges\<close> is set.
\<close>

theorem background_alpha_zero:
  assumes "loadedModel br = Some segmentPerson" "loadImage br url = Some img"
    and "context2d br 0"
    and "0 < rwidth img" "0 < rheight img"
    and "length (rgba img) = 4 * (rwidth img * rheight img)"
    and "length segmentation = rwidth img * rheight img"
  shows
   "(segmentPerson img (orDefault (foregroundThresholdB s1) 50 / 100) = Some segmentation \<longrightarrow>
       (\<exists>out. removeBackgroundBasic br url s1 = Inr out \<and>
          (\<forall>i < length segmentation. segmentation ! i = 0 \<longrightarrow> rgba out ! (i * 4 + 3) = 0))) \<and>
    (segmentPerson img (orDefault (foregroundThresholdR s2) 10 / 100) = Some segmentation \<and>
     \<not> positive (blurEffect s2) \<longrightarrow>
       (\<exists>out. removeBackgroundRefine br url s2 = Inr out \<and>
          (\<forall>i < length segmentation.
             chosenMask s2 segmentation img ! i = 0 \<longrightarrow> rgba out ! (i * 4 + 3) = 0)))"
proof -
  have inside: "i * 4 + 3 < length (rgba img)" if "i < length segmentation" for i
    using that assms(6,7) by simp
  have len: "length (chosenMask s2 segmentation img) = length segmentation"
    by (simp add: chosenMask_def refineMask_length)
  have basic: "\<exists>out. removeBackgroundBasic br url s1 = Inr out \<and>
          (\<forall>i < length segmentation. segmentation ! i = 0 \<longrightarrow> rgba out ! (i * 4 + 3) = 0)"
    if "segmentPerson img (orDefault (foregroundThresholdB s1) 50 / 100) = Some segmentation"
    using that assms(1-5) inside
    by (simp add: removeBackgroundBasic_def applyMask_alpha)
  have refine: "\<exists>out. removeBackgroundRefine br url s2 = Inr out \<and>
          (\<forall>i < length segmentation.
             chosenMask s2 segmentation img ! i = 0 \<longrightarrow> rgba out ! (i * 4 + 3) = 0)"
    if "segmentPerson img (orDefault (foregroundThresholdR s2) 10 / 100) = Some segmentation"
      and "\<not> positive (blurEffect s2)"
    using that assms(1-5) inside len
    by (simp add: removeBackgroundRefine_def blurEffectStep_def whenPositive_skip
        applyMask_alpha Let_def)
  from basic refine show ?thesis by blast
qed


theorem background_alpha_zero_witness:
  "(\<exists>out. removeBackgroundBasic demoBrowser ''photo''
       \<lparr>foregroundThresholdB = None, backgroundThresholdB = None, alphaMattingB = None\<rparr> = Inr out \<and>
       rgba out ! 7 = 0) \<and>
   (\<exists>out. removeBackgroundRefine demoBrowser ''photo''
       \<lparr>foregroundThresholdR = None, blurEffect = Some 0, refineEdges = None\<rparr> = Inr out \<and>
       rgba out ! 7 = 0)"
proof -
  let ?s1 = "\<lparr>foregroundThresholdB = None, backgroundThresholdB = None, alphaMattingB = None\<rparr>"
  let ?s2 = "\<lparr>foregroundThresholdR = None, blurEffect = Some 0, refineEdges = None\<rparr>"
  let ?sp = "\<lambda>(img::raster) (threshold::rat). Some [1, 0::u8]"
  have h1: "loadedModel demoBrowser = Some ?sp"
    and h2: "loadImage demoBrowser ''photo'' = Some demoImage"
    and h3: "context2d demoBrowser 0"
    and h4: "0 < rwidth demoImage" and h5: "0 < rheight demoImage"
    and h6: "length (rgba demoImage) = 4 * (rwidth demoImage * rheight demoImage)"
    and h7: "length [1, 0::u8] = rwidth demoImage * rheight demoImage"
    by (simp_all add: demoBrowser_def demoImage_def)
  have np: "\<not> positive (blurEffect ?s2)" by (simp add: positive_def)
  have m: "chosenMask ?s2 [1, 0] demoImage ! 1 = 0" by (simp add: chosenMask_def)
  from background_alpha_zero [OF h1 h2 h3 h4 h5 h6 h7, of ?s1 ?s2] np
  obtain out1 out2 where
    o1: "removeBackgroundBasic demoBrowser ''photo'' ?s1 = Inr out1"
      "\<forall>i < length [1, 0::u8]. [1, 0::u8] ! i = 0 \<longrightarrow> rgba out1 ! (i * 4 + 3) = 0"
    and o2: "removeBackgroundRefine demoBrowser ''photo'' ?s2 = Inr out2"
      "\<forall>i < length [1, 0::u8]. chosenMask ?s2 [1, 0] demoImage ! i = 0 \<longrightarrow>
         rgba out2 ! (i * 4 + 3) = 0"
    by auto
  from o1(2) [rule_format, of 1] have "rgba out1 ! 7 = 0" by simp
  moreover from o2(2) [rule_format, of 1] m have "rgba out2 ! 7 = 0" by simp
  ultimately show ?thesis using o1(1) o2(1) by blast
qed

text \<open>The mask builder writes whole pixels: position \<open>j\<close> belongs to pixel \<open>j div 4\<close>.\<close>

lemma writeMaskPixel_length: "length (writeMaskPixel seg i d) = length d"
  by (simp add: writeMaskPixel_def Let_def)

lemma pixel_div_mod: "c < 4 \<Longrightarrow> (i * 4 + c) div 4 = i \<and> (i * 4 + c) mod 4 = (c::nat)"
  by simp

lemma writeMaskPixel_nth:
  assumes "j < length d"
  shows "writeMaskPixel seg i d ! j =
     (if j div 4 = i
      then (if j mod 4 = 3 then 255 else if truthy (elemAt seg i) then 255 else 0)
      else d ! j)"
proof (cases "j div 4 = i")
  case True
  then have "j = i * 4 + j mod 4" by presburger
  moreover have "j mod 4 = 0 \<or> j mod 4 = 1 \<or> j mod 4 = 2 \<or> j mod 4 = 3" by presburger
  ultimately consider "j = i * 4 + 0" "j mod 4 = 0" | "j = i * 4 + 1" "j mod 4 = 1"
    | "j = i * 4 + 2" "j mod 4 = 2" | "j = i * 4 + 3" "j mod 4 = 3"
    by metis
  then show ?thesis
    using assms True by cases (simp_all add: writeMaskPixel_def Let_def nth_list_update)
next
  case False
  then have "j \<noteq> i * 4" "j \<noteq> i * 4 + 1" "j \<noteq> i * 4 + 2" "j \<noteq> i * 4 + 3"
    using pixel_div_mod [of 0 i] pixel_div_mod [of 1 i] pixel_div_mod [of 2 i]
      pixel_div_mod [of 3 i] by auto
  with False show ?thesis by (simp add: writeMaskPixel_def Let_def)
qed

lemma fold_writeMaskPixel_length: "length (fold (writeMaskPixel seg) xs d) = length d"
  by (induction xs arbitrary: d) (simp_all add: writeMaskPixel_length)

lemma fold_writeMaskPixel_nth:
  "j < length d \<Longrightarrow>
   fold (writeMaskPixel seg) xs d ! j =
     (if j div 4 \<in> set xs
      then (if j mod 4 = 3 then 255 else if truthy (elemAt seg (j div 4)) then 255 else 0)
      else d ! j)"
proof (induction xs arbitrary: d)
  case Nil
  then show ?case by simp
next
  case (Cons i xs)
  have len: "j < length (writeMaskPixel seg i d)"
    using Cons.prems by (simp add: writeMaskPixel_length)
  show ?case
    using Cons.IH [OF len] writeMaskPixel_nth [OF Cons.prems, of seg i] by auto
qed

lemma buildMask_length: "length (buildMask seg w h) = 4 * w * h"
  by (simp add: buildMask_def fold_writeMaskPixel_length)

lemma buildMask_nth:
  "j < 4 * w * h \<Longrightarrow>
   buildMask seg w h ! j =
     (if j div 4 < length seg
      then (if j mod 4 = 3 then 255 else if seg ! (j div 4) \<noteq> 0 then 255 else 0)
      else 0)"
  by (simp add: buildMask_def fold_writeMaskPixel_nth truthy_def elemAt_def)

text \<open>
  C2. The mask builder is a function of the labels and the dimensions. For a label
  array with one label per pixel, the mask has \<open>4 * width * height\<close> bytes; the three
  colour channels of pixel \<open>i\<close> are 255 when label \<open>i\<close> is foreground (truthy) and 0
  otherwise, and its alpha channel is 255.
\<close>

theorem buildMask_binary:
  assumes "length segmentation = width * height"
  shows "length (buildMask segmentation width height) = 4 * width * height \<and>
    (\<forall>i < width * height.
       buildMask segmentation width height ! (i * 4) = (if segmentation ! i \<noteq> 0 then 255 else 0) \<and>
       buildMask segmentation width height ! (i * 4 + 1) = (if segmentation ! i \<noteq> 0 then 255 else 0) \<and>
       buildMask segmentation width height ! (i * 4 + 2) = (if segmentation ! i \<noteq> 0 then 255 else 0) \<and>
       buildMask segmentation width height ! (i * 4 + 3) = 255)"
proof -
  have "buildMask segmentation width height ! (i * 4 + c) =
      (if c = 3 then 255 else if segmentation ! i \<noteq> 0 then 255 else 0)"
    if "i < width * height" "c < 4" for i c
  proof -
    have "i * 4 + c < 4 * width * height" using that by simp
    moreover have "(i * 4 + c) div 4 = i" "(i * 4 + c) mod 4 = c" using that(2) by simp_all
    ultimately show ?thesis using that(1) assms by (simp add: buildMask_nth)
  qed
  from this [of _ 0] this [of _ 1] this [of _ 2] this [of _ 3]
  show ?thesis by (simp add: buildMask_length)
qed

theorem buildMask_binary_witness:
  "length [1, 0::u8] = 2 * 1 \<and> length (buildMask [1, 0] 2 1) = 8 \<and>
   buildMask [1, 0] 2 1 ! 0 = 255 \<and> buildMask [1, 0] 2 1 ! 3 = 255 \<and>
   buildMask [1, 0] 2 1 ! 4 = 0 \<and> buildMask [1, 0] 2 1 ! 7 = 255"
proof -
  have len: "length [1, 0::u8] = 2 * 1" by simp
  from buildMask_binary [OF len]
  have l: "length (buildMask [1, 0] 2 1) = 8"
    and p: "\<forall>i < 2 * 1.
       buildMask [1, 0] 2 1 ! (i * 4) = (if [1, 0::u8] ! i \<noteq> 0 then 255 else 0) \<and>
       buildMask [1, 0] 2 1 ! (i * 4 + 1) = (if [1, 0::u8] ! i \<noteq> 0 then 255 else 0) \<and>
       buildMask [1, 0] 2 1 ! (i * 4 + 2) = (if [1, 0::u8] ! i \<noteq> 0 then 255 else 0) \<and>
       buildMask [1, 0] 2 1 ! (i * 4 + 3) = 255"
    by simp_all
  from p [rule_format, of 0] p [rule_format, of 1] l len show ?thesis by simp
qed

section \<open>Properties of the pipelines\<close>

lemma whenPositive_zero: "whenPositive (Some 0) f c = c" "whenPositive None f c = c"
  by (simp_all add: whenPositive_def)

lemma whenPositive_dims:
  assumes "\<And>r c. rwidth (f r c) = rwidth c \<and> rheight (f r c) = rheight c"
  shows "rwidth (whenPositive v f c) = rwidth c \<and> rheight (whenPositive v f c) = rheight c"
  using assms by (simp add: whenPositive_def split: option.splits)

lemma edgeBlur_dims:
  "rwidth (edgeBlur br opts c) = rwidth c \<and> rheight (edgeBlur br opts c) = rheight c"
  unfolding edgeBlur_def by (rule whenPositive_dims) simp

text \<open>
  C3. Whenever \<open>removeBackground\<close> returns a result, in the variant with a mask canvas
  and in the basic variant, the URL decoded to an image of at least 1\<times>1 and the
  result has exactly the width and the height of that image.
\<close>

theorem result_dimensions:
  "(removeBackground br url opts = Inr out \<longrightarrow>
      (\<exists>img. loadImage br url = Some img \<and> 1 \<le> rwidth img \<and> 1 \<le> rheight img \<and>
         rwidth out = rwidth img \<and> rheight out = rheight img)) \<and>
   (removeBackgroundBasic br url settings = Inr out' \<longrightarrow>
      (\<exists>img. loadImage br url = Some img \<and> 1 \<le> rwidth img \<and> 1 \<le> rheight img \<and>
         rwidth out' = rwidth img \<and> rheight out' = rheight img))"
proof -
  have a: "\<exists>img. loadImage br url = Some img \<and> 1 \<le> rwidth img \<and> 1 \<le> rheight img \<and>
         rwidth out = rwidth img \<and> rheight out = rheight img"
    if "removeBackground br url opts = Inr out"
    using that edgeBlur_dims
    by (auto simp: removeBackground_def Let_def split: option.splits if_splits)
  have b: "\<exists>img. loadImage br url = Some img \<and> 1 \<le> rwidth img \<and> 1 \<le> rheight img \<and>
         rwidth out' = rwidth img \<and> rheight out' = rheight img"
    if "removeBackgroundBasic br url settings = Inr out'"
    using that
    by (auto simp: removeBackgroundBasic_def split: option.splits if_splits)
  from a b show ?thesis by blast
qed

theorem result_dimensions_witness:
  "\<exists>out. removeBackground demoBrowser ''photo''
       \<lparr>foregroundThresholdO = None, edgeDilation = None, edgeBlurAmount = None\<rparr> = Inr out \<and>
     rwidth out = 2 \<and> rheight out = 1"
proof -
  let ?o = "\<lparr>foregroundThresholdO = None, edgeDilation = None, edgeBlurAmount = None\<rparr>"
  have "\<exists>out. removeBackground demoBrowser ''photo'' ?o = Inr out"
    by (simp add: removeBackground_def demoBrowser_def demoImage_def dilateMask_def
        edgeBlur_def whenPositive_def)
  then obtain out where out: "removeBackground demoBrowser ''photo'' ?o = Inr out" ..
  from result_dimensions [of demoBrowser "''photo''" ?o out] out
  obtain img where "loadImage demoBrowser ''photo'' = Some img"
    "rwidth out = rwidth img" "rheight out = rheight img"
    by blast
  then have "rwidth out = 2 \<and> rheight out = 1"
    by (auto simp: demoBrowser_def demoImage_def)
  with out show ?thesis by blast
qed

text \<open>
  C7. With edge dilation 0 and edge blur 0 the dilation step returns the mask canvas
  as it is, the blur step returns the canvas as it is, and the pipeline returns what
  it returns without these settings, whatever the blur of the browser computes. The
  same holds for the blur effect of the variant with \<open>refineMask\<close>.
\<close>

theorem zero_strength_noop:
  "(edgeDilation opts = Some 0 \<and> edgeBlurAmount opts = Some 0 \<longrightarrow>
      dilateMask br opts maskCanvas = maskCanvas \<and> edgeBlur br opts canvas = canvas \<and>
      removeBackground br url opts =
        removeBackground (br\<lparr>drawBlurred := anyBlur\<rparr>) url
          (opts\<lparr>edgeDilation := None, edgeBlurAmount := None\<rparr>)) \<and>
   (blurEffect settings = Some 0 \<longrightarrow>
      blurEffectStep br settings canvas = canvas \<and>
      removeBackgroundRefine br url settings =
        removeBackgroundRefine (br\<lparr>drawBlurred := anyBlur\<rparr>) url (settings\<lparr>blurEffect := None\<rparr>))"
proof -
  have steps: "dilateMask br opts m = m" "edgeBlur br opts c = c"
    if "edgeDilation opts = Some 0" "edgeBlurAmount opts = Some 0" for br m c
    using that by (simp_all add: dilateMask_def edgeBlur_def whenPositive_zero)
  have none: "dilateMask br (opts\<lparr>edgeDilation := None, edgeBlurAmount := None\<rparr>) m = m"
    "edgeBlur br (opts\<lparr>edgeDilation := None, edgeBlurAmount := None\<rparr>) c = c" for br m c
    by (simp_all add: dilateMask_def edgeBlur_def whenPositive_zero)
  have whole: "removeBackground br url opts =
        removeBackground (br\<lparr>drawBlurred := anyBlur\<rparr>) url
          (opts\<lparr>edgeDilation := None, edgeBlurAmount := None\<rparr>)"
    if "edgeDilation opts = Some 0" "edgeBlurAmount opts = Some 0"
    using steps [OF that] none
    by (simp add: removeBackground_def Let_def split: option.splits)
  have step2: "blurEffectStep br settings c = c" if "blurEffect settings = Some 0" for br c
    using that by (simp add: blurEffectStep_def whenPositive_zero)
  have none2: "blurEffectStep br (settings\<lparr>blurEffect := None\<rparr>) c = c" for br c
    by (simp add: blurEffectStep_def whenPositive_zero)
  have whole2: "removeBackgroundRefine br url settings =
        removeBackgroundRefine (br\<lparr>drawBlurred := anyBlur\<rparr>) url (settings\<lparr>blurEffect := None\<rparr>)"
    if "blurEffect settings = Some 0"
    using step2 [OF that] none2
    by (simp add: removeBackgroundRefine_def Let_def chosenMask_def split: option.splits)
  from steps whole step2 whole2 show ?thesis by blast
qed

theorem zero_strength_noop_witness:
  "removeBackground demoBrowser ''photo''
     \<lparr>foregroundThresholdO = None, edgeDilation = Some 0, edgeBlurAmount = Some 0\<rparr> =
   Inr \<lparr>rwidth = 2, rheight = 1, rgba = [10, 20, 30, 255, 40, 50, 60, 255]\<rparr> \<and>
   removeBackgroundRefine demoBrowser ''photo''
     \<lparr>foregroundThresholdR = None, blurEffect = Some 0, refineEdges = None\<rparr> =
   Inr \<lparr>rwidth = 2, rheight = 1, rgba = [10, 20, 30, 255, 40, 50, 60, 0]\<rparr>"
proof -
  let ?o = "\<lparr>foregroundThresholdO = None, edgeDilation = Some 0, edgeBlurAmount = Some 0\<rparr>"
  let ?s = "\<lparr>foregroundThresholdR = None, blurEffect = Some 0, refineEdges = None\<rparr>"
  let ?crash = "\<lambda>(r::rat) (a::rat) (c::raster). [] :: u8 list"
  have z: "edgeDilation ?o = Some 0 \<and> edgeBlurAmount ?o = Some 0" "blurEffect ?s = Some 0"
    by simp_all
  from zero_strength_noop [of ?o demoBrowser _ _ "''photo''" ?crash ?s] z
  have a: "removeBackground demoBrowser ''photo'' ?o =
      removeBackground (demoBrowser\<lparr>drawBlurred := ?crash\<rparr>) ''photo''
        (?o\<lparr>edgeDilation := None, edgeBlurAmount := None\<rparr>)"
    and b: "removeBackgroundRefine demoBrowser ''photo'' ?s =
      removeBackgroundRefine (demoBrowser\<lparr>drawBlurred := ?crash\<rparr>) ''photo''
        (?s\<lparr>blurEffect := None\<rparr>)"
    by blast+
  have "removeBackground (demoBrowser\<lparr>drawBlurred := ?crash\<rparr>) ''photo''
        (?o\<lparr>edgeDilation := None, edgeBlurAmount := None\<rparr>) =
      Inr \<lparr>rwidth = 2, rheight = 1, rgba = [10, 20, 30, 255, 40, 50, 60, 255]\<rparr>"
    by (simp add: removeBackground_def demoBrowser_def demoImage_def dilateMask_def
        edgeBlur_def whenPositive_def)
  moreover have "removeBackgroundRefine (demoBrowser\<lparr>drawBlurred := ?crash\<rparr>) ''photo''
        (?s\<lparr>blurEffect := None\<rparr>) =
      Inr \<lparr>rwidth = 2, rheight = 1, rgba = [10, 20, 30, 255, 40, 50, 60, 0]\<rparr>"
    by (simp add: removeBackgroundRefine_def demoBrowser_def demoImage_def chosenMask_def
        blurEffectStep_def whenPositive_def applyMask_def clearAlpha_def truthy_def elemAt_def)
  ultimately show ?thesis using a b by simp
qed

section \<open>Properties of the re-thresholding\<close>

text \<open>
  A loop over the pixel starts whose step rewrites the three colour channels of its
  own pixel from their current values rewrites every pixel from its original values.
\<close>

lemma fold_pixels:
  assumes len: "\<And>i d. length (f i d) = length d"
    and nth: "\<And>k d j. 4 * k + 3 < length d \<Longrightarrow> j < length d \<Longrightarrow>
        f (4 * k) d ! j =
          (if j div 4 = k \<and> j mod 4 \<noteq> 3
           then G (d ! (4 * k)) (d ! (4 * k + 1)) (d ! (4 * k + 2)) else d ! j)"
    and n: "4 * n \<le> length d"
  shows "length (fold f (map (\<lambda>k. 4 * k) [0..<n]) d) = length d \<and>
    (\<forall>j < length d. fold f (map (\<lambda>k. 4 * k) [0..<n]) d ! j =
       (if j div 4 < n \<and> j mod 4 \<noteq> 3
        then G (d ! (4 * (j div 4))) (d ! (4 * (j div 4) + 1)) (d ! (4 * (j div 4) + 2))
        else d ! j))"
  using n
proof (induction n)
  case 0
  show ?case by simp
next
  case (Suc n)
  let ?r = "fold f (map (\<lambda>k. 4 * k) [0..<n]) d"
  from Suc have IH: "length ?r = length d"
    "\<And>j. j < length d \<Longrightarrow> ?r ! j =
       (if j div 4 < n \<and> j mod 4 \<noteq> 3
        then G (d ! (4 * (j div 4))) (d ! (4 * (j div 4) + 1)) (d ! (4 * (j div 4) + 2))
        else d ! j)"
    by simp_all
  have unfold: "fold f (map (\<lambda>k. 4 * k) [0..<Suc n]) d = f (4 * n) ?r" by simp
  have inr: "4 * n + 3 < length ?r" using Suc.prems IH(1) by simp
  have own: "?r ! (4 * n + c) = d ! (4 * n + c)" if "c < 3" for c
  proof -
    have "(4 * n + c) div 4 = n" using that by simp
    moreover have "4 * n + c < length d" using that Suc.prems by simp
    ultimately show ?thesis using IH(2) [of "4 * n + c"] by simp
  qed
  have own0: "?r ! (4 * n) = d ! (4 * n)" using own [of 0] by simp
  have step: "f (4 * n) ?r ! j =
       (if j div 4 < Suc n \<and> j mod 4 \<noteq> 3
        then G (d ! (4 * (j div 4))) (d ! (4 * (j div 4) + 1)) (d ! (4 * (j div 4) + 2))
        else d ! j)" if j: "j < length d" for j
  proof (cases "j div 4 = n \<and> j mod 4 \<noteq> 3")
    case True
    then show ?thesis
      using nth [OF inr, of j] j IH(1) own0 own [of 1] own [of 2] by simp
  next
    case False
    then have "f (4 * n) ?r ! j = ?r ! j"
      using nth [OF inr, of j] j IH(1) by auto
    with False IH(2) [OF j] show ?thesis by (auto simp: less_Suc_eq)
  qed
  show ?case unfolding unfold using step by (simp add: len IH(1))
qed

lemma three_updates_nth:
  assumes "j < length d" "4 * k + 3 < length d"
  shows "d[4 * k := v, 4 * k + 1 := v, 4 * k + 2 := v] ! j =
      (if j div 4 = k \<and> j mod 4 \<noteq> 3 then v else d ! j)"
    and "d[4 * k + 2 := v, 4 * k + 1 := v, 4 * k := v] ! j =
      (if j div 4 = k \<and> j mod 4 \<noteq> 3 then v else d ! j)"
proof -
  have "(j div 4 = k \<and> j mod 4 \<noteq> 3) = (j = 4 * k \<or> j = 4 * k + 1 \<or> j = 4 * k + 2)"
    by presburger
  then show "d[4 * k := v, 4 * k + 1 := v, 4 * k + 2 := v] ! j =
      (if j div 4 = k \<and> j mod 4 \<noteq> 3 then v else d ! j)"
    and "d[4 * k + 2 := v, 4 * k + 1 := v, 4 * k := v] ! j =
      (if j div 4 = k \<and> j mod 4 \<noteq> 3 then v else d ! j)"
    using assms by (auto simp: nth_list_update)
qed

lemma thresholdAny_length: "length (thresholdAny i d) = length d"
  by (simp add: thresholdAny_def)

lemma thresholdAny_nth:
  assumes "4 * k + 3 < length d" "j < length d"
  shows "thresholdAny (4 * k) d ! j =
    (if j div 4 = k \<and> j mod 4 \<noteq> 3
     then (if 128 < d ! (4 * k) \<or> 128 < d ! (4 * k + 1) \<or> 128 < d ! (4 * k + 2) then 255 else 0)
     else d ! j)"
proof -
  have g: "gt128 (elemAt d (4 * k + c)) = (128 < d ! (4 * k + c))" if "c < 3" for c
    using that assms(1) by (simp add: gt128_def elemAt_def)
  from g [of 0] g [of 1] g [of 2] show ?thesis
    using three_updates_nth(1) [OF assms(2,1)] by (simp add: thresholdAny_def)
qed

lemma avg_gt_128: "(128 < (of_nat s :: rat) / 3) = (384 < s)"
proof -
  have "(128 < (of_nat s :: rat) / 3) = ((of_nat 384 :: rat) < of_nat s)"
    by (simp add: field_simps)
  also have "\<dots> = (384 < s)" by (simp only: of_nat_less_iff)
  finally show ?thesis .
qed

lemma average3_threshold:
  "(case average3 (Some r) (Some g) (Some b) of None \<Rightarrow> 0 | Some a \<Rightarrow> if 128 < a then 255 else 0) =
   (if 384 < unat r + unat g + unat b then 255 else (0::u8))"
  unfolding average3_def by (simp only: option.case avg_gt_128)

lemma thresholdAvg_length: "length (thresholdAvg i d) = length d"
  by (simp add: thresholdAvg_def Let_def)

lemma thresholdAvg_nth:
  assumes "4 * k + 3 < length d" "j < length d"
  shows "thresholdAvg (4 * k) d ! j =
    (if j div 4 = k \<and> j mod 4 \<noteq> 3
     then (if 384 < unat (d ! (4 * k)) + unat (d ! (4 * k + 1)) + unat (d ! (4 * k + 2))
           then 255 else 0)
     else d ! j)"
proof -
  have g: "elemAt d (4 * k + c) = Some (d ! (4 * k + c))" if "c < 3" for c
    using that assms(1) by (simp add: elemAt_def)
  from g [of 0] g [of 1] g [of 2] show ?thesis
    using three_updates_nth(2) [OF assms(2,1)]
    by (simp add: thresholdAvg_def Let_def average3_threshold del: of_nat_add)
qed

lemma pixelStarts_whole: "length d = 4 * n \<Longrightarrow> pixelStarts d = map (\<lambda>k. 4 * k) [0..<n]"
  by (simp add: pixelStarts_def)

lemma rethresholdAny_nth:
  assumes "length d = 4 * n" "j < length d"
  shows "rethresholdAny d ! j = (if j mod 4 \<noteq> 3 then specRethreshold d (j div 4) else d ! j)"
proof -
  have "4 * n \<le> length d" using assms(1) by simp
  from fold_pixels [of thresholdAny
      "\<lambda>r g b. if 128 < r \<or> 128 < g \<or> 128 < b then 255 else 0", OF thresholdAny_length _ this]
    thresholdAny_nth
  have "rethresholdAny d ! j =
      (if j div 4 < n \<and> j mod 4 \<noteq> 3 then specRethreshold d (j div 4) else d ! j)"
    using assms by (simp add: rethresholdAny_def pixelStarts_whole specRethreshold_def)
  moreover have "j div 4 < n" using assms by simp
  ultimately show ?thesis by simp
qed

lemma rethresholdAvg_nth:
  assumes "length d = 4 * n" "j < length d"
  shows "rethresholdAvg d ! j =
    (if j mod 4 \<noteq> 3
     then (if 384 < unat (d ! (4 * (j div 4))) + unat (d ! (4 * (j div 4) + 1)) +
                    unat (d ! (4 * (j div 4) + 2)) then 255 else 0)
     else d ! j)"
proof -
  have "4 * n \<le> length d" using assms(1) by simp
  from fold_pixels [of thresholdAvg
      "\<lambda>r g b. if 384 < unat r + unat g + unat b then 255 else 0", OF thresholdAvg_length _ this]
    thresholdAvg_nth
  have "rethresholdAvg d ! j =
      (if j div 4 < n \<and> j mod 4 \<noteq> 3
       then (if 384 < unat (d ! (4 * (j div 4))) + unat (d ! (4 * (j div 4) + 1)) +
                    unat (d ! (4 * (j div 4) + 2)) then 255 else 0)
       else d ! j)"
    using assms by (simp add: rethresholdAvg_def pixelStarts_whole)
  moreover have "j div 4 < n" using assms by simp
  ultimately show ?thesis by simp
qed

lemma gray_average: "(384 < unat v + unat v + unat v) = (128 < (v::u8))"
proof -
  have "(384 < unat v + unat v + unat v) = (128 < unat v)" by arith
  also have "\<dots> = (128 < v)" by (simp add: word_less_nat_alt)
  finally show ?thesis .
qed


text \<open>
  C8. For image data of \<open>n\<close> whole pixels and every pixel \<open>k\<close>: the channel-wise
  loop sets the three colour channels to 255 when any of them is greater than 128 and
  to 0 otherwise; the averaging loop sets the three colour channels to one value that
  is 0 or 255, and on a grey pixel (three equal channels, which is what a mask pixel
  is) that value is the one of the same rule. So the mask is binary after the step in
  both variants.
\<close>

theorem rethreshold_binary:
  assumes "length d = 4 * n" "k < n"
  shows "rethresholdAny d ! (4 * k) = specRethreshold d k \<and>
    rethresholdAny d ! (4 * k + 1) = specRethreshold d k \<and>
    rethresholdAny d ! (4 * k + 2) = specRethreshold d k \<and>
    rethresholdAny d ! (4 * k) \<in> {0, 255} \<and>
    rethresholdAvg d ! (4 * k) \<in> {0, 255} \<and>
    rethresholdAvg d ! (4 * k + 1) = rethresholdAvg d ! (4 * k) \<and>
    rethresholdAvg d ! (4 * k + 2) = rethresholdAvg d ! (4 * k) \<and>
    (d ! (4 * k) = d ! (4 * k + 1) \<and> d ! (4 * k + 1) = d ! (4 * k + 2) \<longrightarrow>
       rethresholdAvg d ! (4 * k) = specRethreshold d k)"
proof -
  have pos: "4 * k + c < length d" "(4 * k + c) div 4 = k" "(4 * k + c) mod 4 = c"
    if "c < 3" for c
    using that assms by simp_all
  have any: "rethresholdAny d ! (4 * k + c) = specRethreshold d k" if "c < 3" for c
    using rethresholdAny_nth [OF assms(1) pos(1) [OF that]] pos(2,3) [OF that] that by simp
  have avg: "rethresholdAvg d ! (4 * k + c) =
      (if 384 < unat (d ! (4 * k)) + unat (d ! (4 * k + 1)) + unat (d ! (4 * k + 2))
       then 255 else 0)" if "c < 3" for c
    using rethresholdAvg_nth [OF assms(1) pos(1) [OF that]] pos(2,3) [OF that] that by simp
  have gray: "rethresholdAvg d ! (4 * k) = specRethreshold d k"
    if "d ! (4 * k) = d ! (4 * k + 1)" "d ! (4 * k + 1) = d ! (4 * k + 2)"
    using avg [of 0] that gray_average [of "d ! (4 * k + 2)"]
    by (simp add: specRethreshold_def)
  have bin: "specRethreshold d k \<in> {0, 255}" by (simp add: specRethreshold_def)
  from any [of 0] any [of 1] any [of 2] avg [of 0] avg [of 1] avg [of 2] gray bin
  show ?thesis by simp
qed

theorem rethreshold_binary_witness:
  "length [200, 200, 200, 255, 100, 100, 100, 255 :: u8] = 4 * 2 \<and>
   rethresholdAny [200, 200, 200, 255, 100, 100, 100, 255] ! (4 * 0) = 255 \<and>
   rethresholdAvg [200, 200, 200, 255, 100, 100, 100, 255] ! (4 * 0) = 255 \<and>
   rethresholdAny [200, 200, 200, 255, 100, 100, 100, 255] ! (4 * 1) = 0 \<and>
   rethresholdAvg [200, 200, 200, 255, 100, 100, 100, 255] ! (4 * 1) = 0"
proof -
  let ?d = "[200, 200, 200, 255, 100, 100, 100, 255 :: u8]"
  have len: "length ?d = 4 * 2" by simp
  have s0: "specRethreshold ?d 0 = 255" and s1: "specRethreshold ?d 1 = 0"
    by (simp_all add: specRethreshold_def)
  have g0: "?d ! (4 * 0) = ?d ! (4 * 0 + 1) \<and> ?d ! (4 * 0 + 1) = ?d ! (4 * 0 + 2)"
    and g1: "?d ! (4 * 1) = ?d ! (4 * 1 + 1) \<and> ?d ! (4 * 1 + 1) = ?d ! (4 * 1 + 2)"
    by simp_all
  have k0: "(0::nat) < 2" and k1: "(1::nat) < 2" by simp_all
  from rethreshold_binary [OF len k0] g0 s0
  have "rethresholdAny ?d ! (4 * 0) = 255 \<and> rethresholdAvg ?d ! (4 * 0) = 255"
    by metis
  moreover from rethreshold_binary [OF len k1] g1 s1
  have "rethresholdAny ?d ! (4 * 1) = 0 \<and> rethresholdAvg ?d ! (4 * 1) = 0"
    by metis
  ultimately show ?thesis using len by blast
qed

section \<open>Properties of the settings endpoint\<close>

lemma zNumberMinMax_out_of_range:
  "n < lo \<or> hi < n \<Longrightarrow> \<exists>e. zNumberMinMax lo hi key (Some (JNum n)) = Inl e"
  by (auto simp: zNumberMinMax_def Let_def)

lemma parse_fails_on_threshold:
  assumes "map_of props ''foregroundThreshold'' = Some (JNum n)" "n < 0 \<or> 100 < n"
  shows "\<exists>e. settingsSchemaParse (JObj props) = Inl e"
proof -
  obtain e where e: "zNumberMinMax 0 100 ''foregroundThreshold'' (Some (JNum n)) = Inl e"
    using zNumberMinMax_out_of_range [OF assms(2)] by blast
  show ?thesis
    using assms(1) e
    by (simp add: settingsSchemaParse_def Let_def split: sum.splits)
qed

lemma postSettings_rejects:
  "settingsSchemaParse reqBody = Inl e \<Longrightarrow>
   postSettings st reqBody = (\<lparr>status = 400, body = ValidationMessage e\<rparr>, st)"
  by (simp add: postSettings_def)

text \<open>
  C9. A settings POST whose body fails the schema is answered with status 400 and
  the validation message, and the storage after the request is the storage before
  it. A body whose \<open>foregroundThreshold\<close> is a number below 0 or above 100, such
  as 150, is such a body.
\<close>

theorem invalid_settings_rejected:
  "(settingsSchemaParse reqBody = Inl e \<longrightarrow>
      postSettings st reqBody = (\<lparr>status = 400, body = ValidationMessage e\<rparr>, st)) \<and>
   (map_of props ''foregroundThreshold'' = Some (JNum n) \<and> (n < 0 \<or> 100 < n) \<longrightarrow>
      status (fst (postSettings st (JObj props))) = 400 \<and>
      snd (postSettings st (JObj props)) = st)"
proof -
  have "status (fst (postSettings st (JObj props))) = 400 \<and>
      snd (postSettings st (JObj props)) = st"
    if "map_of props ''foregroundThreshold'' = Some (JNum n)" "n < 0 \<or> 100 < n"
  proof -
    from parse_fails_on_threshold [OF that]
    obtain e' where "settingsSchemaParse (JObj props) = Inl e'" ..
    from postSettings_rejects [OF this] show ?thesis by simp
  qed
  then show ?thesis using postSettings_rejects by blast
qed

theorem invalid_settings_rejected_witness:
  "status (fst (postSettings newMemStorage badThresholdBody)) = 400 \<and>
   snd (postSettings newMemStorage badThresholdBody) = newMemStorage \<and>
   settingsSchemaParse badThresholdBody = Inl [Issue ''foregroundThreshold'' ''too_big'']"
proof -
  let ?props = "[(''model'', JStr ''u2net''), (''alphaMatting'', JBool False),
           (''foregroundThreshold'', JNum 150), (''backgroundThreshold'', JNum 50)]"
  have l: "map_of ?props ''foregroundThreshold'' = Some (JNum 150) \<and> ((150::rat) < 0 \<or> 100 < (150::rat))"
    by simp
  from invalid_settings_rejected [of _ _ newMemStorage ?props 150] l
  have a: "status (fst (postSettings newMemStorage badThresholdBody)) = 400 \<and>
      snd (postSettings newMemStorage badThresholdBody) = newMemStorage"
    unfolding badThresholdBody_def by blast
  have p: "settingsSchemaParse badThresholdBody = Inl [Issue ''foregroundThreshold'' ''too_big'']"
    by (simp add: badThresholdBody_def settingsSchemaParse_def zEnum_def zBoolean_def
        zNumberMinMax_def zDefault_def zOptional_def zString_def issuesOf_def
        backgroundRemovalModels_def backgroundTypes_def)
  from a p show ?thesis by simp
qed

section \<open>Properties of loadModel\<close>

text \<open>Once the module variable is set, no event clears it and no call starts a load.\<close>

lemma loadModel_cached_call:
  "bodyPixModel s = Some m \<Longrightarrow> loadModel s Call = (s, Returned m)"
  by simp

lemma loadModel_keeps_cache:
  "bodyPixModel s \<noteq> None \<Longrightarrow> bodyPixModel (fst (loadModel s e)) \<noteq> None \<and>
     started (fst (loadModel s e)) = started s"
  by (cases e) auto

lemma runLoader_keeps_cache:
  "bodyPixModel s \<noteq> None \<Longrightarrow>
   bodyPixModel (runLoader s es) \<noteq> None \<and> started (runLoader s es) = started s"
proof (induction es arbitrary: s)
  case Nil
  then show ?case by (simp add: runLoader_def)
next
  case (Cons e es)
  from loadModel_keeps_cache [OF Cons.prems, of e]
  have "bodyPixModel (fst (loadModel s e)) \<noteq> None" "started (fst (loadModel s e)) = started s"
    by simp_all
  with Cons.IH [of "fst (loadModel s e)"] show ?case
    by (simp add: runLoader_def)
qed

lemma loadModel_settled:
  "bodyPixModel s = Some m \<Longrightarrow> inFlight s = [] \<Longrightarrow> fst (loadModel s e) = s"
  by (cases e) auto

lemma runLoader_settled:
  "bodyPixModel s = Some m \<Longrightarrow> inFlight s = [] \<Longrightarrow> runLoader s es = s"
  by (induction es) (simp_all add: runLoader_def loadModel_settled)

lemma returned_sets_cache:
  "loadModel s0 e = (s, Returned m) \<Longrightarrow> bodyPixModel s = Some m"
  by (cases e) (auto split: option.splits if_splits)

text \<open>
  C10, as amended. Once a call of \<open>loadModel\<close> has returned a model, then after any
  further calls and settled loads a call returns a cached model at once, no load has
  been started in between, and the model is the same one whenever no other load was
  in flight at that return.
\<close>

theorem loadModel_reuses_cache:
  assumes "loadModel s0 e = (s, Returned m)"
  shows "\<exists>m'. loadModel (runLoader s es) Call = (runLoader s es, Returned m') \<and>
           started (runLoader s es) = started s \<and>
           (inFlight s = [] \<longrightarrow> m' = m)"
proof -
  have c: "bodyPixModel s = Some m" using assms by (rule returned_sets_cache)
  then have "bodyPixModel (runLoader s es) \<noteq> None" "started (runLoader s es) = started s"
    using runLoader_keeps_cache [of s es] by simp_all
  then obtain m' where m': "bodyPixModel (runLoader s es) = Some m'" by blast
  have "m' = m" if "inFlight s = []"
    using runLoader_settled [OF c that, of es] m' c by simp
  with m' \<open>started (runLoader s es) = started s\<close> show ?thesis
    by (auto simp: loadModel_cached_call)
qed

theorem loadModel_reuses_cache_witness:
  "loadModel (runLoader initialLoader [Call]) (Resolve 0) =
     (\<lparr>bodyPixModel = Some 0, started = 1, inFlight = []\<rparr>, Returned 0) \<and>
   loadModel (runLoader \<lparr>bodyPixModel = Some 0, started = 1, inFlight = []\<rparr> [Call, Resolve 0, Call]) Call
     = (runLoader \<lparr>bodyPixModel = Some 0, started = 1, inFlight = []\<rparr> [Call, Resolve 0, Call], Returned 0) \<and>
   started (runLoader \<lparr>bodyPixModel = Some 0, started = 1, inFlight = []\<rparr> [Call, Resolve 0, Call]) = 1"
proof -
  let ?s = "\<lparr>bodyPixModel = Some 0, started = 1, inFlight = []\<rparr>"
  have r: "loadModel (runLoader initialLoader [Call]) (Resolve 0) = (?s, Returned 0)"
    by (simp add: runLoader_def initialLoader_def)
  from loadModel_reuses_cache [OF r, of "[Call, Resolve 0, Call]"] r
  show ?thesis by auto
qed

text \<open>
  C10 as stated fails. Two calls before the first load settles start two loads, both
  in flight; the second load, when it resolves, replaces the cached model, so calls
  after the first completion do not all return the same instance.
\<close>

theorem loadModel_parallel_counterexample:
  "inFlight (runLoader initialLoader [Call, Call]) = [0, 1] \<and>
   started (runLoader initialLoader [Call, Call]) = 2 \<and>
   snd (loadModel (runLoader initialLoader [Call, Call, Resolve 0]) Call) = Returned 0 \<and>
   snd (loadModel (runLoader initialLoader [Call, Call, Resolve 0, Call, Resolve 1]) Call) = Returned 1"
  by (simp add: runLoader_def initialLoader_def)

end
